theory Spec2Isabelle
  imports Main
begin

section \<open>JavaScript strings and numbers\<close>

text \<open>
  A model of the asar updater: version comparison, the metadata check, the download
  with its staging protocol, and the replacement of the live bundle. The definitions
  follow the revision of \<^verbatim>\<open>updater.ts\<close> that has the checksum pipeline
  (src/unnamed/part_001). The file src/src/updater.ts holds two earlier revisions:
  its lines 1-304 have the same \<^verbatim>\<open>parserVersion\<close>, \<^verbatim>\<open>compareVersions\<close>,
  \<^verbatim>\<open>check\<close> and, outside win32, \<^verbatim>\<open>upgrade\<close>, while their \<^verbatim>\<open>download\<close> has no
  checksum and removes only the swap and version files first; its lines 305-551 are
  the oldest variant, bound to Electron, which is not modelled.

  The updater is TypeScript on Node. Strings are modelled as \<^typ>\<open>string\<close> (one
  \<^typ>\<open>char\<close> per UTF-16 code unit below 256; letter case is modelled for the
  ASCII range only), and the values that
  \<^verbatim>\<open>parserVersion\<close> puts into its tuple as \<open>jsval\<close>: \<^verbatim>\<open>undefined\<close>,
  \<^verbatim>\<open>NaN\<close> or an integral number. A JavaScript number is a double; an integer is
  modelled by its mathematical value, which is what the double holds for every digit
  string of at most 15 digits (below \<open>2 ^ 53\<close>). For longer digit strings the double
  is rounded, and beyond 20 digits what \<^verbatim>\<open>parseInt\<close> returns is left to the
  implementation; the model is not meant for them, and every statement below that
  depends on the value of a number bounds the digits it reads.
\<close>

datatype jsval = Undefined | NaN | Num int

text \<open>\<^verbatim>\<open>a !== b\<close> on such values: \<^verbatim>\<open>NaN\<close> differs from everything, itself included.\<close>

fun strict_neq :: "jsval \<Rightarrow> jsval \<Rightarrow> bool" where
  "strict_neq (Num x) (Num y) = (x \<noteq> y)"
| "strict_neq Undefined Undefined = False"
| "strict_neq _ _ = True"

text \<open>\<^verbatim>\<open>a > b\<close>: \<^verbatim>\<open>undefined\<close> converts to \<^verbatim>\<open>NaN\<close>, and every comparison with
  \<^verbatim>\<open>NaN\<close> is false.\<close>

fun js_gt :: "jsval \<Rightarrow> jsval \<Rightarrow> bool" where
  "js_gt (Num x) (Num y) = (y < x)"
| "js_gt _ _ = False"

text \<open>The white space that \<^verbatim>\<open>parseInt\<close> skips, among the code units below 256:
  tab, line feed, vertical tab, form feed, carriage return, space and the no-break
  space U+00A0. (The others, U+FEFF, U+2028, U+2029 and the space separators from
  U+1680 on, are not characters of the model.)\<close>

definition isWhiteSpace :: "char \<Rightarrow> bool" where
  "isWhiteSpace c =
     (c \<in> set [CHR 0x09, CHR 0x0A, CHR 0x0B, CHR 0x0C, CHR 0x0D, CHR '' '', CHR 0xA0])"

definition isDigit :: "char \<Rightarrow> bool" where
  "isDigit c = (c \<in> set ''0123456789'')"

definition digitValue :: "char \<Rightarrow> int" where
  "digitValue c = int (length (takeWhile (\<lambda>d. d \<noteq> c) ''0123456789''))"

text \<open>The value of a string of decimal digits, most significant digit first.\<close>

definition decimal :: "string \<Rightarrow> int" where
  "decimal ds = foldl (\<lambda>acc c. 10 * acc + digitValue c) 0 ds"

text \<open>
  \<^verbatim>\<open>parseInt(s, 10)\<close>: leading white space is skipped, one sign is accepted, then the
  longest prefix of decimal digits is read and everything after it is ignored; with no
  digit there the result is \<^verbatim>\<open>NaN\<close>. It never throws. The number is exact for
  a prefix of at most 15 digits.
\<close>

definition parseInt10 :: "string \<Rightarrow> jsval" where
  "parseInt10 s =
     (let t = dropWhile isWhiteSpace s;
          sign = (if take 1 t = ''-'' then - 1 else 1);
          r = (if take 1 t = ''-'' \<or> take 1 t = ''+'' then drop 1 t else t);
          ds = takeWhile isDigit r
      in if ds = [] then NaN else Num (sign * decimal ds))"

text \<open>\<^verbatim>\<open>parseInt(undefined, 10)\<close> reads the string \<^verbatim>\<open>"undefined"\<close>.\<close>

definition parseInt10_opt :: "string option \<Rightarrow> jsval" where
  "parseInt10_opt x = (case x of None \<Rightarrow> parseInt10 ''undefined'' | Some s \<Rightarrow> parseInt10 s)"

text \<open>\<^verbatim>\<open>s.split(c)\<close> for a one-character separator: never empty, \<^verbatim>\<open>"".split(c)\<close> is
  \<^verbatim>\<open>[""]\<close>.\<close>

fun split :: "char \<Rightarrow> string \<Rightarrow> string list" where
  "split c [] = [[]]"
| "split c (x # xs) =
     (if x = c then [] # split c xs
      else (case split c xs of [] \<Rightarrow> [[x]] | y # ys \<Rightarrow> (x # y) # ys))"

text \<open>Reading position \<open>i\<close> of an array: \<^verbatim>\<open>undefined\<close> past its end.\<close>

definition at :: "'a list \<Rightarrow> nat \<Rightarrow> 'a option" where
  "at xs i = (if i < length xs then Some (xs ! i) else None)"

definition at_num :: "jsval list \<Rightarrow> nat \<Rightarrow> jsval" where
  "at_num xs i = (case at xs i of None \<Rightarrow> Undefined | Some v \<Rightarrow> v)"

definition startsWith :: "string \<Rightarrow> string \<Rightarrow> bool" where
  "startsWith s p = (take (length p) s = p)"

definition endsWith :: "string \<Rightarrow> string \<Rightarrow> bool" where
  "endsWith s p = (length p \<le> length s \<and> drop (length s - length p) s = p)"

text \<open>\<^verbatim>\<open>s.lastIndexOf(c)\<close>: \<open>-1\<close> when \<open>c\<close> does not occur.\<close>

definition lastIndexOf :: "string \<Rightarrow> char \<Rightarrow> int" where
  "lastIndexOf s c =
     (case dropWhile (\<lambda>x. x \<noteq> c) (rev s) of [] \<Rightarrow> - 1 | _ # r \<Rightarrow> int (length r))"

text \<open>\<^verbatim>\<open>s.slice(0, e)\<close>: a negative end counts from the end of the string.\<close>

definition slice0 :: "string \<Rightarrow> int \<Rightarrow> string" where
  "slice0 s e = (if e < 0 then take (nat (int (length s) + e)) s else take (nat e) s)"

definition toLowerCase :: "string \<Rightarrow> string" where
  "toLowerCase s =
     map (\<lambda>c. if c \<in> set ''ABCDEFGHIJKLMNOPQRSTUVWXYZ'' then char_of (of_char c + (32::nat)) else c) s"

text \<open>A string used as a condition is true unless it is missing or empty.\<close>

definition truthy :: "string option \<Rightarrow> bool" where
  "truthy x = (case x of None \<Rightarrow> False | Some s \<Rightarrow> s \<noteq> [])"

section \<open>Version comparison\<close>

text \<open>
  \<^verbatim>\<open>parserVersion\<close> (part_001 lines 52-61, src/updater.ts lines 31-40). The
  destructuring \<^verbatim>\<open>[ver, buildstr] = ver.split('-')\<close> keeps the first two pieces; the
  default \<^verbatim>\<open>patch = 0\<close> applies only to a missing third segment, not to \<^verbatim>\<open>NaN\<close>.
\<close>

definition parserVersion :: "string \<Rightarrow> jsval list" where
  "parserVersion ver0 =
     (let pieces = split CHR ''-'' ver0;
          dash = (CHR ''-'' \<in> set ver0);
          ver = (if dash then (case at pieces 0 of None \<Rightarrow> [] | Some v \<Rightarrow> v) else ver0);
          build = (if dash then parseInt10_opt (at pieces 1) else Num 0);
          nums = map parseInt10 (split CHR ''.'' ver);
          major = at_num nums 0;
          minor = at_num nums 1;
          patch = (case at nums 2 of None \<Rightarrow> Num 0 | Some Undefined \<Rightarrow> Num 0 | Some v \<Rightarrow> v)
      in [major, minor, patch, build])"

text \<open>The loop of \<^verbatim>\<open>compareVersions\<close> over the positions 0 to 3.\<close>

function compareFrom :: "nat \<Rightarrow> jsval list \<Rightarrow> jsval list \<Rightarrow> bool" where
  "compareFrom i updateVersion appVersion =
     (if i < 4 then
        (if strict_neq (at_num updateVersion i) (at_num appVersion i)
         then js_gt (at_num updateVersion i) (at_num appVersion i)
         else compareFrom (Suc i) updateVersion appVersion)
      else False)"
  by pat_completeness auto
termination
  by (relation "measure (\<lambda>(i, u, a). 4 - i)") auto

definition compareVersions :: "string \<Rightarrow> string \<Rightarrow> bool" where
  "compareVersions updateVersionStr currentVersionStr =
     (let appVersion = parserVersion currentVersionStr;
          updateVersion = parserVersion updateVersionStr
      in compareFrom 0 updateVersion appVersion)"

section \<open>Descriptor, runtime and file system\<close>

text \<open>\<^verbatim>\<open>AsarInfoResponse\<close> and \<^verbatim>\<open>AsarUpdaterOptions\<close> (part_001 lines 176-209); an
  optional field is an \<open>option\<close>.\<close>

record AsarInfoResponse =
  version :: string
  download_url :: string
  description :: "string option"
  checksum :: "string option"

record AsarUpdaterOptions =
  version_url :: string
  resource_path :: string
  exec_path :: "string option"

text \<open>
  The code throws plain \<^verbatim>\<open>Error\<close> objects; the model names them by where they
  arise: the request emitted \<^verbatim>\<open>'error'\<close>, the status was not 200, the stream being
  piped ended prematurely, \<^verbatim>\<open>JSON.parse\<close> threw, \<^verbatim>\<open>new URL\<close> threw, the gunzip
  stage failed, the digest differed (\<^verbatim>\<open>checksum remote(..) != local(..)\<close>), a path
  did not exist. \<open>Unsettled\<close> is not an exception: it stands for a promise that is
  neither resolved nor rejected, so that the caller never resumes and no value is
  claimed for the call.
\<close>

datatype error =
    RequestError
  | StatusError nat
  | ResponseAborted
  | SyntaxError
  | InvalidURL
  | ZlibError
  | ChecksumError
  | ENOENT
  | Unsettled

text \<open>What the server answers to a GET: nothing, or a status code with the chunks of
  the body and whether the body arrived whole (\<^verbatim>\<open>'end'\<close>) or broke off.\<close>

datatype response = NoResponse | Response nat "string list" bool

text \<open>
  Node itself is not part of the repository. What the updater uses of it is a parameter
  of the model: the platform name, \<^verbatim>\<open>path.sep\<close>, \<^verbatim>\<open>path.join\<close>,
  \<^verbatim>\<open>path.relative\<close>, \<^verbatim>\<open>path.resolve\<close>, the origin of a URL (\<open>None\<close> when
  \<^verbatim>\<open>new URL\<close> throws), the two request functions, gunzip (the bytes it emits and
  whether the input was a complete gzip stream), \<^verbatim>\<open>createHash(algorithm)\<close> with its
  hex digest, and JSON (\<open>None\<close> when \<^verbatim>\<open>JSON.parse\<close> throws; the parsed value has the
  shape the source casts it to).
\<close>

record node =
  platform :: string
  path_sep :: string
  path_join :: "string \<Rightarrow> string \<Rightarrow> string"
  path_relative :: "string \<Rightarrow> string \<Rightarrow> string"
  path_resolve :: "string \<Rightarrow> string"
  url_origin :: "string \<Rightarrow> string option"
  httpRequest :: "string \<Rightarrow> response"
  httpsRequest :: "string \<Rightarrow> response"
  gunzip :: "string \<Rightarrow> string \<times> bool"
  createHash :: "string \<Rightarrow> string \<Rightarrow> string"
  JSON_parse :: "string \<Rightarrow> AsarInfoResponse option"
  JSON_stringify :: "AsarInfoResponse \<Rightarrow> string"

text \<open>
  The state the updater acts on: the files (path to content; only regular files the
  process may read and write, so an operation fails only for a missing path) and the
  detached processes it has spawned.
\<close>

record state =
  files :: "string \<rightharpoonup> string"
  spawned :: "(string \<times> string list) list"

type_synonym 'a io = "state \<Rightarrow> (error + 'a) \<times> state"

definition exists :: "state \<Rightarrow> string \<Rightarrow> bool" where
  "exists s p = (files s p \<noteq> None)"

text \<open>\<^verbatim>\<open>fs.rm(p, {force})\<close>: a missing path is an error unless \<^verbatim>\<open>force\<close> is set.\<close>

definition rm :: "string \<Rightarrow> bool \<Rightarrow> unit io" where
  "rm p force s =
     (if files s p = None then (if force then (Inr (), s) else (Inl ENOENT, s))
      else (Inr (), s\<lparr>files := (files s)(p := None)\<rparr>))"

definition rename :: "string \<Rightarrow> string \<Rightarrow> unit io" where
  "rename old new s =
     (case files s old of
        None \<Rightarrow> (Inl ENOENT, s)
      | Some d \<Rightarrow> (Inr (), s\<lparr>files := ((files s)(old := None))(new \<mapsto> d)\<rparr>))"

definition writeFile :: "string \<Rightarrow> string \<Rightarrow> unit io" where
  "writeFile p d s = (Inr (), s\<lparr>files := (files s)(p \<mapsto> d)\<rparr>)"

definition readFile :: "string \<Rightarrow> state \<Rightarrow> error + string" where
  "readFile p s = (case files s p of None \<Rightarrow> Inl ENOENT | Some d \<Rightarrow> Inr d)"

text \<open>\<^verbatim>\<open>createWriteStream(p, {flags: 'w'})\<close> creates the file or truncates it.\<close>

definition createWriteStream :: "string \<Rightarrow> state \<Rightarrow> state" where
  "createWriteStream p s = s\<lparr>files := (files s)(p \<mapsto> [])\<rparr>"

section \<open>HTTP\<close>

definition request :: "node \<Rightarrow> string \<Rightarrow> response" where
  "request n url = (if startsWith url ''https://'' then httpsRequest n url else httpRequest n url)"

text \<open>\<^verbatim>\<open>data.join()\<close> (part_001 line 109) joins the chunks with commas.\<close>

fun join_chunks :: "string list \<Rightarrow> string" where
  "join_chunks [] = []"
| "join_chunks [x] = x"
| "join_chunks (x # y # ys) = x @ '','' @ join_chunks (y # ys)"

text \<open>\<^verbatim>\<open>http_get_json\<close> (part_001 lines 85-118). After a status of 200 it settles
  in the \<^verbatim>\<open>'end'\<close> handler only, and the response has no \<^verbatim>\<open>'error'\<close> listener: for
  a body that breaks off the promise stays pending.\<close>

definition http_get_json :: "node \<Rightarrow> string \<Rightarrow> error + AsarInfoResponse" where
  "http_get_json n url =
     (case request n url of
        NoResponse \<Rightarrow> Inl RequestError
      | Response statusCode data ended \<Rightarrow>
          if statusCode \<noteq> 200 then Inl (StatusError statusCode)
          else if \<not> ended then Inl Unsettled
          else (case JSON_parse n (join_chunks data) of
                  None \<Rightarrow> Inl SyntaxError
                | Some v \<Rightarrow> Inr v))"

text \<open>\<^verbatim>\<open>http_get_stream\<close> (part_001 lines 120-141): the stream is the chunks still to
  come and whether they end normally.\<close>

definition http_get_stream :: "node \<Rightarrow> string \<Rightarrow> error + (string list \<times> bool)" where
  "http_get_stream n url =
     (case request n url of
        NoResponse \<Rightarrow> Inl RequestError
      | Response statusCode data ended \<Rightarrow>
          if statusCode \<noteq> 200 then Inl (StatusError statusCode)
          else Inr (data, ended))"

section \<open>The stream pipeline\<close>

text \<open>
  \<^verbatim>\<open>pipe(stream, ...streams)\<close> (part_001 lines 72-81) connects the stages in the order
  of the list; each stage reads what the stage before it emits. \<^verbatim>\<open>HashTransform\<close>
  (lines 32-50) passes its input on unchanged and, when its input has ended, records
  the lower-cased hex digest of all of it; the gunzip stage emits the decompressed
  bytes and fails on input that is not a complete gzip stream; the write stream puts
  what reaches it into its file. An error of any stage rejects the promise; what was
  written stays. The accumulator is the bytes flowing, the first error, and the digest
  recorded so far.
\<close>

datatype stage = HashTransform string | Gunzip | WriteStream string

fun run_stages ::
  "node \<Rightarrow> stage list \<Rightarrow> string \<Rightarrow> error option \<Rightarrow> string option \<Rightarrow> state
     \<Rightarrow> error option \<times> string option \<times> state" where
  "run_stages n [] d err h s = (err, h, s)"
| "run_stages n (HashTransform algorithm # rest) d err h s =
     run_stages n rest d err
       (case err of None \<Rightarrow> Some (toLowerCase (createHash n algorithm d)) | Some _ \<Rightarrow> h) s"
| "run_stages n (Gunzip # rest) d err h s =
     run_stages n rest (fst (gunzip n d))
       (case err of None \<Rightarrow> (if snd (gunzip n d) then None else Some ZlibError) | Some e \<Rightarrow> Some e)
       h s"
| "run_stages n (WriteStream p # rest) d err h s =
     run_stages n rest d err h (s\<lparr>files := (files s)(p \<mapsto> d)\<rparr>)"

definition pipe :: "node \<Rightarrow> string list \<times> bool \<Rightarrow> stage list \<Rightarrow> string option io" where
  "pipe n stream streams s =
     (case run_stages n streams (concat (fst stream))
             (if snd stream then None else Some ResponseAborted) None s of
        (None, h, s') \<Rightarrow> (Inr h, s')
      | (Some e, h, s') \<Rightarrow> (Inl e, s'))"

section \<open>The updater\<close>

definition asarSwapFileName :: string where "asarSwapFileName = ''swap.asar''"
definition asarNextFileName :: string where "asarNextFileName = ''next.asar''"
definition asarVersionFileName :: string where "asarVersionFileName = ''version.json''"
definition asarTargetFileName :: string where "asarTargetFileName = ''app.asar''"

record AsarUpdater =
  checkVersionUrl :: string
  downloadHost :: string
  appPathFolder :: string
  asarNextPath :: string
  asarSwapPath :: string
  asarTargetPath :: string
  asarVersionPath :: string
  resourcePath :: string
  execPath :: "string option"

text \<open>The constructor (part_001 lines 232-247).\<close>

definition new_AsarUpdater :: "node \<Rightarrow> AsarUpdaterOptions \<Rightarrow> error + AsarUpdater" where
  "new_AsarUpdater n options =
     (case url_origin n (version_url options) of
        None \<Rightarrow> Inl InvalidURL
      | Some origin \<Rightarrow>
          (let rp = (if endsWith (resource_path options) asarTargetFileName
                     then slice0 (resource_path options) (- int (length asarTargetFileName))
                     else resource_path options);
               folder = (if endsWith rp (path_sep n) then slice0 rp (- 1) else rp)
           in Inr \<lparr> checkVersionUrl = version_url options,
                    downloadHost = origin,
                    appPathFolder = folder,
                    asarNextPath = path_join n folder asarNextFileName,
                    asarSwapPath = path_join n folder asarSwapFileName,
                    asarTargetPath = path_join n folder asarTargetFileName,
                    asarVersionPath = path_join n folder asarVersionFileName,
                    resourcePath = path_relative n (path_resolve n ''.'') folder,
                    execPath = (case exec_path options of
                                  None \<Rightarrow> None
                                | Some e \<Rightarrow> if e = [] then None
                                            else Some (path_relative n (path_resolve n ''.'') e)) \<rparr>))"

text \<open>Reading and parsing the metadata file, as \<^verbatim>\<open>check\<close> and \<^verbatim>\<open>hasUpgraded\<close> do.\<close>

definition read_info :: "node \<Rightarrow> string \<Rightarrow> state \<Rightarrow> error + AsarInfoResponse" where
  "read_info n p s =
     (case readFile p s of
        Inl e \<Rightarrow> Inl e
      | Inr text \<Rightarrow> (case JSON_parse n text of None \<Rightarrow> Inl SyntaxError | Some v \<Rightarrow> Inr v))"

text \<open>\<^verbatim>\<open>check\<close> (part_001 lines 254-285, src/updater.ts lines 210-241).\<close>

definition check :: "node \<Rightarrow> AsarUpdater \<Rightarrow> string \<Rightarrow> state \<Rightarrow> error + (bool \<times> AsarInfoResponse)" where
  "check n u curentVersion s =
     (case http_get_json n (checkVersionUrl u) of
        Inl e \<Rightarrow> Inl e
      | Inr data \<Rightarrow>
          (let isUpdater = compareVersions (version data) curentVersion;
               downloadUrl =
                 (if \<not> startsWith (download_url data) ''http://''
                      \<and> \<not> startsWith (download_url data) ''https://''
                  then (if \<not> startsWith (download_url data) ''/''
                        then slice0 (checkVersionUrl u) (lastIndexOf (checkVersionUrl u) CHR ''/'')
                               @ ''/'' @ download_url data
                        else downloadHost u @ download_url data)
                  else download_url data)
           in if exists s (asarVersionPath u)
              then (case read_info n (asarVersionPath u) s of
                      Inl e \<Rightarrow> Inl e
                    | Inr nextUpdaterInfo \<Rightarrow>
                        Inr (if truthy (checksum nextUpdaterInfo)
                                 \<and> checksum nextUpdaterInfo = checksum data
                             then False else isUpdater,
                             data\<lparr>download_url := downloadUrl\<rparr>))
              else Inr (isUpdater, data\<lparr>download_url := downloadUrl\<rparr>)))"

text \<open>The loop at the head of \<^verbatim>\<open>download\<close> (part_001 lines 293-297): each file that
  exists is removed, in the order of the list.\<close>

fun rm_existing :: "string list \<Rightarrow> unit io" where
  "rm_existing [] s = (Inr (), s)"
| "rm_existing (file # rest) s =
     (if exists s file
      then (case rm file False s of
              (Inl e, s') \<Rightarrow> (Inl e, s')
            | (Inr _, s') \<Rightarrow> rm_existing rest s')
      else rm_existing rest s)"

text \<open>\<^verbatim>\<open>download\<close> (part_001 lines 291-329).\<close>

definition download :: "node \<Rightarrow> AsarUpdater \<Rightarrow> AsarInfoResponse \<Rightarrow> bool io" where
  "download n u asarInfo s =
     (case rm_existing [asarNextPath u, asarSwapPath u, asarVersionPath u] s of
        (Inl e, s1) \<Rightarrow> (Inl e, s1)
      | (Inr _, s1) \<Rightarrow>
          (case http_get_stream n (download_url asarInfo) of
             Inl e \<Rightarrow> (Inl e, s1)
           | Inr inStream \<Rightarrow>
               (let isGzip = (endsWith (download_url asarInfo) ''.gz''
                              \<or> endsWith (download_url asarInfo) ''.gzip'');
                    s2 = createWriteStream (asarSwapPath u) s1;
                    hashTransform =
                      (case checksum asarInfo of
                         None \<Rightarrow> []
                       | Some c \<Rightarrow> if c = [] then []
                                   else [HashTransform (if length c = 32 then ''md5'' else ''sha256'')]);
                    outputStreams = hashTransform @ (if isGzip then [Gunzip] else [])
                                      @ [WriteStream (asarSwapPath u)]
                in case pipe n inStream outputStreams s2 of
                     (Inl e, s3) \<Rightarrow> (Inl e, s3)
                   | (Inr hash, s3) \<Rightarrow>
                       if hashTransform \<noteq> []
                          \<and> hash \<noteq> map_option toLowerCase (checksum asarInfo)
                       then (Inl ChecksumError, s3)
                       else (case rename (asarSwapPath u) (asarNextPath u) s3 of
                               (Inl e, s4) \<Rightarrow> (Inl e, s4)
                             | (Inr _, s4) \<Rightarrow>
                                 (case writeFile (asarVersionPath u) (JSON_stringify n asarInfo) s4 of
                                    (Inl e, s5) \<Rightarrow> (Inl e, s5)
                                  | (Inr _, s5) \<Rightarrow> (Inr True, s5))))))"

text \<open>\<^verbatim>\<open>hasUpgraded\<close> (part_001 lines 334-341): \<open>None\<close> is the source's \<^verbatim>\<open>false\<close>.\<close>

definition hasUpgraded :: "node \<Rightarrow> AsarUpdater \<Rightarrow> state \<Rightarrow> error + AsarInfoResponse option" where
  "hasUpgraded n u s =
     (if exists s (asarNextPath u) \<and> exists s (asarVersionPath u)
      then (case read_info n (asarVersionPath u) s of
              Inl e \<Rightarrow> Inl e
            | Inr v \<Rightarrow> Inr (Some v))
      else Inr None)"

text \<open>
  \<^verbatim>\<open>generateWinScript\<close> (part_001 lines 143-174) writes the helper script; the
  text is the template of the source, line by line.
\<close>

definition script_text :: "string \<Rightarrow> string \<Rightarrow> string \<Rightarrow> string" where
  \<open>script_text updaterPath destPath run =
     [CHR 0x0A] @ concat (map (\<lambda>l. l @ [CHR 0x0A])
       [''On Error Resume Next'',
        ''Dim relaunch'',
        ''relaunch = wscript.arguments(0)'',
        ''Set wshShell = WScript.CreateObject("WScript.Shell")'',
        ''Set fsObject = WScript.CreateObject("Scripting.FileSystemObject")'',
        ''updaterPath = "'' @ updaterPath @ ''"'',
        ''destPath = "'' @ destPath @ ''"'',
        [],
        ''Do While fsObject.FileExists(destPath)'',
        ''fsObject.DeleteFile destPath'',
        ''WScript.Sleep 250'',
        ''Loop'',
        [],
        ''WScript.Sleep 250'',
        ''fsObject.MoveFile updaterPath,destPath'',
        ''WScript.Sleep 250'',
        [],
        ''If relaunch = "1" Then'',
        ''  '' @ run,
        ''End If''])\<close>

definition generateWinScript :: "node \<Rightarrow> string \<Rightarrow> string \<Rightarrow> string option \<Rightarrow> unit io" where
  \<open>generateWinScript n resourcePath' scriptPath execPath' s =
     (let relaunch = (case execPath' of
                        None \<Rightarrow> False
                      | Some e \<Rightarrow> e \<noteq> [] \<and> exists s (path_join n ''.'' e));
          run = (case execPath' of
                   None \<Rightarrow> []
                 | Some e \<Rightarrow> if relaunch then ''wshShell.Run ".'' @ [CHR 0x5C] @ e @ ''"'' else [])
      in writeFile scriptPath
           (script_text (path_join n resourcePath' asarNextFileName)
                        (path_join n resourcePath' asarTargetFileName) run) s)\<close>

text \<open>
  \<^verbatim>\<open>upgrade\<close> (part_001 lines 347-361, src/updater.ts lines 289-303). On win32 the
  script is written and a detached \<^verbatim>\<open>cmd\<close> is spawned (what that process does later
  is outside the call); elsewhere the target is removed with \<^verbatim>\<open>force\<close> and the next
  file renamed onto it.
\<close>

definition upgrade :: "node \<Rightarrow> AsarUpdater \<Rightarrow> bool \<Rightarrow> unit io" where
  \<open>upgrade n u relaunch s =
     (if platform n = ''win32'' then
        (let updaterScriptPath = path_join n (resourcePath u) ''updater.vbs'' in
         case generateWinScript n (resourcePath u) updaterScriptPath (execPath u) s of
           (Inl e, s1) \<Rightarrow> (Inl e, s1)
         | (Inr _, s1) \<Rightarrow>
             (Inr (), s1\<lparr>spawned := spawned s1 @
                 [(''cmd'', [''/s'', ''/c'', ''wscript'', ''"'' @ updaterScriptPath @ ''"'',
                            ''"'' @ (if relaunch then ''1'' else ''0'') @ ''"''])]\<rparr>))
      else
        (case rm (asarTargetPath u) True s of
           (Inl e, s1) \<Rightarrow> (Inl e, s1)
         | (Inr _, s1) \<Rightarrow> rename (asarNextPath u) (asarTargetPath u) s1))\<close>

section \<open>The version format of the specification\<close>

text \<open>
  The specification gives the format \<^verbatim>\<open>major.minor.patch[-build]\<close>, the patch being
  optional, every segment a non-negative integer. A segment is a non-empty string of at
  most 15 decimal digits; \<open>mk_version\<close> writes a version from its segments and
  \<open>valid_version\<close> recognises the strings of that form.
\<close>


definition segment :: "string \<Rightarrow> bool" where
  "segment ds = (ds \<noteq> [] \<and> list_all isDigit ds \<and> length ds \<le> 15)"

definition opt_segment :: "string option \<Rightarrow> bool" where
  "opt_segment x = (case x of None \<Rightarrow> True | Some ds \<Rightarrow> segment ds)"

definition opt_value :: "string option \<Rightarrow> int" where
  "opt_value x = (case x of None \<Rightarrow> 0 | Some ds \<Rightarrow> decimal ds)"

definition core :: "string \<Rightarrow> string \<Rightarrow> string option \<Rightarrow> string" where
  "core ma mi pa = ma @ ''.'' @ mi @ (case pa of None \<Rightarrow> [] | Some p \<Rightarrow> ''.'' @ p)"

definition mk_version :: "string \<Rightarrow> string \<Rightarrow> string option \<Rightarrow> string option \<Rightarrow> string" where
  "mk_version ma mi pa bu = core ma mi pa @ (case bu of None \<Rightarrow> [] | Some b \<Rightarrow> ''-'' @ b)"

text \<open>The lexicographic order on 4-tuples: major first, then minor, patch, build.\<close>

fun lex_gt4 :: "int \<times> int \<times> int \<times> int \<Rightarrow> int \<times> int \<times> int \<times> int \<Rightarrow> bool" where
  "lex_gt4 (a1, a2, a3, a4) (b1, b2, b3, b4) =
     (b1 < a1 \<or> (a1 = b1 \<and> (b2 < a2 \<or> (a2 = b2 \<and> (b3 < a3 \<or> (a3 = b3 \<and> b4 < a4))))))"

definition valid_core :: "string \<Rightarrow> bool" where
  "valid_core s =
     (case split CHR ''.'' s of
        [a, b] \<Rightarrow> segment a \<and> segment b
      | [a, b, c] \<Rightarrow> segment a \<and> segment b \<and> segment c
      | _ \<Rightarrow> False)"

definition valid_version :: "string \<Rightarrow> bool" where
  "valid_version s =
     (case split CHR ''-'' s of
        [c] \<Rightarrow> valid_core c
      | [c, b] \<Rightarrow> valid_core c \<and> segment b
      | _ \<Rightarrow> False)"

section \<open>The staging protocol of the specification\<close>

text \<open>
  The four paths of the resource layout are siblings in one directory, so they are
  distinct. \<open>cleaned\<close> is the state with the three staging artifacts deleted,
  \<open>swap_written\<close> the cleaned state with a swap file, \<open>committed\<close> the cleaned
  state with the swap file renamed to the next file and the descriptor written.
\<close>

definition cleaned :: "AsarUpdater \<Rightarrow> state \<Rightarrow> state" where
  "cleaned u s =
     s\<lparr>files := (files s)(asarNextPath u := None, asarSwapPath u := None, asarVersionPath u := None)\<rparr>"

definition staging_distinct :: "AsarUpdater \<Rightarrow> bool" where
  "staging_distinct u =
     distinct [asarSwapPath u, asarNextPath u, asarVersionPath u, asarTargetPath u]"

definition digest_algorithm :: "string \<Rightarrow> string" where
  "digest_algorithm c = (if length c = 32 then ''md5'' else ''sha256'')"

definition is_gzip_url :: "string \<Rightarrow> bool" where
  "is_gzip_url url = (endsWith url ''.gz'' \<or> endsWith url ''.gzip'')"

definition swap_written :: "AsarUpdater \<Rightarrow> string \<Rightarrow> state \<Rightarrow> state" where
  "swap_written u out s = (cleaned u s)\<lparr>files := (files (cleaned u s))(asarSwapPath u \<mapsto> out)\<rparr>"

definition committed :: "node \<Rightarrow> AsarUpdater \<Rightarrow> AsarInfoResponse \<Rightarrow> string \<Rightarrow> state \<Rightarrow> state" where
  "committed n u info out s =
     (cleaned u s)\<lparr>files := ((files (cleaned u s))(asarSwapPath u := None))
        (asarNextPath u \<mapsto> out, asarVersionPath u \<mapsto> JSON_stringify n info)\<rparr>"

section \<open>A concrete installation\<close>

text \<open>
  An updater on a POSIX system whose metadata endpoint is \<^verbatim>\<open>https://h/api/check\<close>,
  with a runtime small enough to evaluate: the endpoint serves the given body, the
  bundle URL the given response, gunzip knows one archive, the digest of \<open>d\<close> under
  algorithm \<open>a\<close> is written \<open>a:d\<close>, and JSON texts are looked up in a table.
\<close>

definition example_updater :: AsarUpdater where
  "example_updater =
     \<lparr> checkVersionUrl = ''https://h/api/check'',
       downloadHost = ''https://h'',
       appPathFolder = ''/opt/app/resources'',
       asarNextPath = ''/opt/app/resources/next.asar'',
       asarSwapPath = ''/opt/app/resources/swap.asar'',
       asarTargetPath = ''/opt/app/resources/app.asar'',
       asarVersionPath = ''/opt/app/resources/version.json'',
       resourcePath = ''resources'',
       execPath = None \<rparr>"

definition info_root :: AsarInfoResponse where
  "info_root = \<lparr> version = ''2.0.0'', download_url = ''/pkg/app.asar'',
                 description = None, checksum = None \<rparr>"

definition info_bare :: AsarInfoResponse where
  "info_bare = \<lparr> version = ''2.0.0'', download_url = ''app.asar.gz'',
                 description = None, checksum = None \<rparr>"

definition info_gz :: AsarInfoResponse where
  "info_gz = \<lparr> version = ''2.0.0'', download_url = ''https://h/pkg/app.asar.gz'',
               description = None, checksum = Some ''SHA256:ZIPPED'' \<rparr>"

definition info_tampered :: AsarInfoResponse where
  "info_tampered = info_gz\<lparr>checksum := Some ''sha256:other''\<rparr>"

definition example_parse :: "string \<Rightarrow> AsarInfoResponse option" where
  "example_parse t =
     (if t = ''root'' then Some info_root
      else if t = ''bare'' then Some info_bare
      else if t = ''gz'' then Some info_gz
      else None)"

definition example_node :: "string \<Rightarrow> response \<Rightarrow> node" where
  "example_node body bundle =
     \<lparr> platform = ''linux'',
       path_sep = ''/'',
       path_join = (\<lambda>a b. a @ ''/'' @ b),
       path_relative = (\<lambda>from to. drop (length from + 1) to),
       path_resolve = (\<lambda>p. ''/opt/app''),
       url_origin = (\<lambda>url. if url = ''https://h/api/check'' then Some ''https://h'' else None),
       httpRequest = (\<lambda>url. NoResponse),
       httpsRequest = (\<lambda>url. if url = ''https://h/api/check'' then Response 200 [body] True
                               else if url = ''https://h/pkg/app.asar.gz'' then bundle
                               else Response 404 [] True),
       gunzip = (\<lambda>d. if d = ''zipped'' then (''bundle'', True) else ([], False)),
       createHash = (\<lambda>a d. a @ '':'' @ d),
       JSON_parse = example_parse,
       JSON_stringify = (\<lambda>d. ''gz'') \<rparr>"

definition node_not_found :: node where
  "node_not_found = example_node ''gz'' (Response 404 [] True)"

definition node_aborting :: node where
  "node_aborting = example_node ''gz'' (Response 200 [''zip''] False)"

definition node_serving :: node where
  "node_serving = example_node ''gz'' (Response 200 [''zip'', ''ped''] True)"

definition node_root :: node where
  "node_root = example_node ''root'' NoResponse"

definition node_bare :: node where
  "node_bare = example_node ''bare'' NoResponse"

text \<open>A state with an update staged beside the live bundle, and one with the live
  bundle only.\<close>

definition staged_state :: state where
  "staged_state =
     \<lparr> files = [''/opt/app/resources/app.asar'' \<mapsto> ''live'',
                ''/opt/app/resources/next.asar'' \<mapsto> ''bundle'',
                ''/opt/app/resources/version.json'' \<mapsto> ''gz''],
       spawned = [] \<rparr>"

definition unstaged_state :: state where
  "unstaged_state = \<lparr> files = [''/opt/app/resources/app.asar'' \<mapsto> ''live''], spawned = [] \<rparr>"

lemmas example_defs = example_updater_def example_node_def example_parse_def info_root_def
  info_bare_def info_gz_def staged_state_def unstaged_state_def node_not_found_def
  node_aborting_def node_serving_def node_root_def node_bare_def info_tampered_def

section \<open>Properties of the version comparison\<close>

lemma split_notin: "c \<notin> set xs \<Longrightarrow> split c xs = [xs]"
  by (induction xs) auto

lemma split_append: "c \<notin> set xs \<Longrightarrow> split c (xs @ c # ys) = xs # split c ys"
  by (induction xs) auto

lemma split_not_Nil: "split c s \<noteq> []"
  by (induction s) (auto split: list.splits)

lemma split_length_one: "length (split c s) = 1 \<longleftrightarrow> c \<notin> set s"
  by (induction s) (auto simp: split_not_Nil split: list.splits)

lemma isDigit_not_sep: "isDigit d \<Longrightarrow> d \<noteq> CHR ''.'' \<and> d \<noteq> CHR ''-'' \<and> d \<noteq> CHR ''+'' \<and> \<not> isWhiteSpace d"
  by (auto simp: isDigit_def isWhiteSpace_def)

lemma segment_no_sep: "segment ds \<Longrightarrow> CHR ''.'' \<notin> set ds \<and> CHR ''-'' \<notin> set ds"
  by (auto simp: segment_def list_all_iff dest: isDigit_not_sep)

lemma takeWhile_digits_junk:
  "list_all isDigit ds \<Longrightarrow> \<not> isDigit c \<Longrightarrow> takeWhile isDigit (ds @ c # r) = ds"
  by (induction ds) auto

lemma parseInt10_prefix:
  assumes "segment ds" "r = [] \<or> \<not> isDigit (hd r)"
  shows "parseInt10 (ds @ r) = Num (decimal ds)"
proof -
  from assms(1) obtain d ds' where ds: "ds = d # ds'" and d: "isDigit d" and all: "list_all isDigit ds"
    by (cases ds) (auto simp: segment_def)
  have tw: "takeWhile isDigit (ds @ r) = ds"
  proof (cases r)
    case Nil
    with all show ?thesis by (simp add: list_all_iff)
  next
    case (Cons c r')
    with assms(2) all show ?thesis by (simp add: takeWhile_digits_junk)
  qed
  from d have nw: "\<not> isWhiteSpace d" "d \<noteq> CHR ''-''" "d \<noteq> CHR ''+''"
    using isDigit_not_sep by blast+
  have dw: "dropWhile isWhiteSpace (ds @ r) = ds @ r"
    using nw by (simp add: ds)
  have t1: "take 1 (ds @ r) = [d]" by (simp add: ds)
  show ?thesis
    unfolding parseInt10_def Let_def dw t1 using nw tw ds by simp
qed

lemma parseInt10_segment: "segment ds \<Longrightarrow> parseInt10 ds = Num (decimal ds)"
  using parseInt10_prefix [of ds "[]"] by simp


lemma compareFrom_nums:
  "compareFrom 0 [Num a1, Num a2, Num a3, Num a4] [Num b1, Num b2, Num b3, Num b4]
     = lex_gt4 (a1, a2, a3, a4) (b1, b2, b3, b4)"
  by (simp add: at_num_def at_def numeral_nat)


lemma segment_no_dot: "segment ds \<Longrightarrow> CHR ''.'' \<notin> set ds"
  by (simp add: segment_no_sep)

lemma segment_no_dash: "segment ds \<Longrightarrow> CHR ''-'' \<notin> set ds"
  by (simp add: segment_no_sep)

lemma core_no_dash:
  assumes "segment ma" "segment mi" "opt_segment pa"
  shows "CHR ''-'' \<notin> set (core ma mi pa)"
  using assms by (auto simp: core_def opt_segment_def segment_no_dash split: option.splits)

lemma core_nums:
  assumes "segment ma" "segment mi" "opt_segment pa"
  shows "map parseInt10 (split CHR ''.'' (core ma mi pa))
           = Num (decimal ma) # Num (decimal mi) # (case pa of None \<Rightarrow> [] | Some p \<Rightarrow> [Num (decimal p)])"
proof (cases pa)
  case None
  with assms show ?thesis
    by (simp add: core_def split_append split_notin segment_no_dot parseInt10_segment)
next
  case (Some p)
  with assms show ?thesis
    by (simp add: core_def opt_segment_def split_append split_notin segment_no_dot parseInt10_segment)
qed

lemma parserVersion_core:
  assumes "segment ma" "segment mi" "opt_segment pa"
  shows "parserVersion (core ma mi pa)
           = [Num (decimal ma), Num (decimal mi), Num (opt_value pa), Num 0]"
  unfolding parserVersion_def Let_def
  using core_no_dash [OF assms] core_nums [OF assms]
  by (cases pa) (simp_all add: at_num_def at_def opt_value_def)

lemma parserVersion_core_build:
  assumes "segment ma" "segment mi" "opt_segment pa" "segment b"
  shows "parserVersion (core ma mi pa @ CHR ''-'' # b)
           = [Num (decimal ma), Num (decimal mi), Num (opt_value pa), Num (decimal b)]"
proof -
  have sd: "split CHR ''-'' (core ma mi pa @ CHR ''-'' # b) = [core ma mi pa, b]"
    using core_no_dash [OF assms(1-3)] assms(4)
    by (simp add: split_append split_notin segment_no_dash)
  show ?thesis
    unfolding parserVersion_def Let_def sd
    using core_nums [OF assms(1-3)] assms(4)
    by (cases pa) (simp_all add: at_num_def at_def opt_value_def parseInt10_opt_def parseInt10_segment)
qed

lemma parserVersion_mk:
  assumes "segment ma" "segment mi" "opt_segment pa" "opt_segment bu"
  shows "parserVersion (mk_version ma mi pa bu)
           = [Num (decimal ma), Num (decimal mi), Num (opt_value pa), Num (opt_value bu)]"
proof (cases bu)
  case None
  then have "mk_version ma mi pa bu = core ma mi pa" by (simp add: mk_version_def)
  with assms None show ?thesis by (simp add: parserVersion_core opt_value_def)
next
  case (Some b)
  then have "mk_version ma mi pa bu = core ma mi pa @ CHR ''-'' # b"
    by (simp add: mk_version_def)
  with assms Some show ?thesis
    by (simp add: parserVersion_core_build opt_value_def opt_segment_def)
qed

lemma compareVersions_mk:
  assumes "segment ma" "segment mi" "opt_segment pa" "opt_segment bu"
    and "segment ma'" "segment mi'" "opt_segment pa'" "opt_segment bu'"
  shows "compareVersions (mk_version ma mi pa bu) (mk_version ma' mi' pa' bu')
           = lex_gt4 (decimal ma, decimal mi, opt_value pa, opt_value bu)
                     (decimal ma', decimal mi', opt_value pa', opt_value bu')"
  unfolding compareVersions_def Let_def
  by (simp only: parserVersion_mk [OF assms(1-4)] parserVersion_mk [OF assms(5-8)] compareFrom_nums)


lemma split_unsplit:
  "split c s = x # xs \<Longrightarrow> s = x @ concat (map (\<lambda>y. c # y) xs)"
proof (induction s arbitrary: x xs)
  case Nil
  then show ?case by simp
next
  case (Cons a s)
  show ?case
  proof (cases "a = c")
    case True
    with Cons.prems have x: "x = []" and xs: "xs = split c s" by simp_all
    obtain y ys where sp: "split c s = y # ys"
      using split_not_Nil [of c s] by (cases "split c s") auto
    from Cons.IH [OF sp] show ?thesis using True x xs sp by simp
  next
    case False
    obtain y ys where sp: "split c s = y # ys"
      using split_not_Nil [of c s] by (cases "split c s") auto
    with Cons.prems False have "x = a # y" "xs = ys" by simp_all
    with Cons.IH [OF sp] show ?thesis by simp
  qed
qed

lemma valid_core_decomp:
  assumes "valid_core s"
  shows "\<exists>ma mi pa. segment ma \<and> segment mi \<and> opt_segment pa \<and> s = core ma mi pa"
proof -
  from assms consider
      (two) a b where "split CHR ''.'' s = [a, b]" "segment a" "segment b"
    | (three) a b c where "split CHR ''.'' s = [a, b, c]" "segment a" "segment b" "segment c"
    by (auto simp: valid_core_def split: list.splits)
  then show ?thesis
  proof cases
    case two
    from split_unsplit [OF two(1)] have "s = core a b None" by (simp add: core_def)
    with two show ?thesis by (metis opt_segment_def option.simps(4))
  next
    case three
    from split_unsplit [OF three(1)] have "s = core a b (Some c)" by (simp add: core_def)
    moreover have "opt_segment (Some c)" using three by (simp add: opt_segment_def)
    ultimately show ?thesis using three by blast
  qed
qed

lemma valid_version_decomp:
  assumes "valid_version s"
  shows "\<exists>ma mi pa bu. segment ma \<and> segment mi \<and> opt_segment pa \<and> opt_segment bu
           \<and> s = mk_version ma mi pa bu"
proof -
  from assms consider
      (plain) c where "split CHR ''-'' s = [c]" "valid_core c"
    | (build) c b where "split CHR ''-'' s = [c, b]" "valid_core c" "segment b"
    by (auto simp: valid_version_def split: list.splits)
  then show ?thesis
  proof cases
    case plain
    from split_unsplit [OF plain(1)] have sc: "s = c" by simp
    from valid_core_decomp [OF plain(2)] obtain ma mi pa where
      m: "segment ma" "segment mi" "opt_segment pa" "c = core ma mi pa" by blast
    have "s = mk_version ma mi pa None" using sc m(4) by (simp add: mk_version_def)
    moreover have "opt_segment None" by (simp add: opt_segment_def)
    ultimately show ?thesis using m by blast
  next
    case build
    from split_unsplit [OF build(1)] have sc: "s = c @ CHR ''-'' # b" by simp
    from valid_core_decomp [OF build(2)] obtain ma mi pa where
      m: "segment ma" "segment mi" "opt_segment pa" "c = core ma mi pa" by blast
    have "s = mk_version ma mi pa (Some b)" using sc m(4) by (simp add: mk_version_def)
    moreover have "opt_segment (Some b)" using build(3) by (simp add: opt_segment_def)
    ultimately show ?thesis using m by blast
  qed
qed

lemma valid_version_nums:
  assumes "valid_version s"
  shows "\<exists>n1 n2 n3 n4. parserVersion s = [Num n1, Num n2, Num n3, Num n4]"
  using valid_version_decomp [OF assms] parserVersion_mk by blast

lemma valid_version_mk:
  assumes "segment ma" "segment mi" "opt_segment pa" "opt_segment bu"
  shows "valid_version (mk_version ma mi pa bu)"
proof -
  have vc: "valid_core (core ma mi pa)"
    using assms(1-3)
    by (cases pa) (simp_all add: valid_core_def core_def opt_segment_def split_append split_notin segment_no_dot)
  show ?thesis
  proof (cases bu)
    case None
    then have "mk_version ma mi pa bu = core ma mi pa" by (simp add: mk_version_def)
    then show ?thesis
      using vc core_no_dash [OF assms(1-3)] by (simp add: valid_version_def split_notin)
  next
    case (Some b)
    then have "mk_version ma mi pa bu = core ma mi pa @ CHR ''-'' # b"
      by (simp add: mk_version_def)
    then show ?thesis
      using vc core_no_dash [OF assms(1-3)] assms(4) Some
      by (simp add: valid_version_def split_append split_notin segment_no_dash opt_segment_def)
  qed
qed

text \<open>
  Claim C4. \<^verbatim>\<open>compareVersions(candidate, baseline)\<close> reads a version written
  \<^verbatim>\<open>major.minor[.patch][-build]\<close> as the tuple of the values of its segments, a
  missing patch and a missing build counting as 0, and is true exactly when the
  candidate's tuple is lexicographically greater than the baseline's, the segments
  compared as numbers; so \<^verbatim>\<open>"1.2.3-4"\<close> is newer than \<^verbatim>\<open>"1.2.3-3"\<close> and
  \<^verbatim>\<open>"1.2.0"\<close> is not newer than \<^verbatim>\<open>"1.10.0"\<close>.
\<close>

theorem compareVersions_lexicographic:
  assumes "segment ma" "segment mi" "opt_segment pa" "opt_segment bu"
    and "segment ma'" "segment mi'" "opt_segment pa'" "opt_segment bu'"
  shows "parserVersion (mk_version ma mi pa bu)
           = [Num (decimal ma), Num (decimal mi), Num (opt_value pa), Num (opt_value bu)]
       \<and> compareVersions (mk_version ma mi pa bu) (mk_version ma' mi' pa' bu')
           = lex_gt4 (decimal ma, decimal mi, opt_value pa, opt_value bu)
                     (decimal ma', decimal mi', opt_value pa', opt_value bu')
       \<and> compareVersions ''1.2.3-4'' ''1.2.3-3'' = True
       \<and> compareVersions ''1.2.0'' ''1.10.0'' = False"
proof -
  have ex: "compareVersions ''1.2.3-4'' ''1.2.3-3'' = True \<and> compareVersions ''1.2.0'' ''1.10.0'' = False"
    by code_simp
  show ?thesis
    using parserVersion_mk [OF assms(1-4)] compareVersions_mk [OF assms] ex by simp
qed

text \<open>The theorem at \<^verbatim>\<open>"1.10.0"\<close> against \<^verbatim>\<open>"1.2-7"\<close>.\<close>

theorem compareVersions_lexicographic_witness:
  "segment ''1'' \<and> segment ''10'' \<and> opt_segment (Some ''0'') \<and> opt_segment None
   \<and> mk_version ''1'' ''10'' (Some ''0'') None = ''1.10.0''
   \<and> mk_version ''1'' ''2'' None (Some ''7'') = ''1.2-7''
   \<and> parserVersion ''1.10.0'' = [Num 1, Num 10, Num 0, Num 0]
   \<and> compareVersions ''1.10.0'' ''1.2-7'' = True"
proof -
  have s: "segment ''1''" "segment ''10''" "segment ''2''"
          "opt_segment (Some ''0'')" "opt_segment None" "opt_segment (Some ''7'')"
    by code_simp+
  have m: "mk_version ''1'' ''10'' (Some ''0'') None = ''1.10.0''"
          "mk_version ''1'' ''2'' None (Some ''7'') = ''1.2-7''"
    by code_simp+
  have v: "decimal ''1'' = 1" "decimal ''10'' = 10" "decimal ''2'' = 2"
          "opt_value (Some ''0'') = 0" "opt_value None = 0" "opt_value (Some ''7'') = 7"
    by code_simp+
  from compareVersions_lexicographic [OF s(1) s(2) s(4) s(5) s(1) s(3) s(5) s(6)]
  show ?thesis using s m by (simp add: v)
qed

lemma compareVersions_valid:
  assumes "parserVersion a = [Num a1, Num a2, Num a3, Num a4]"
    and "parserVersion b = [Num b1, Num b2, Num b3, Num b4]"
  shows "compareVersions a b = lex_gt4 (a1, a2, a3, a4) (b1, b2, b3, b4)"
  by (simp only: compareVersions_def Let_def assms compareFrom_nums)

text \<open>
  Claim C5, as amended. For valid version strings \<open>a\<close> and \<open>b\<close> that parse to
  different tuples, \<^verbatim>\<open>compare(a, b)\<close> is the negation of \<^verbatim>\<open>compare(b, a)\<close>; when
  they parse to the same tuple both are false; and the comparison is transitive. The
  exception of the claim, \<open>a = b\<close> as strings, is too narrow: different strings can
  denote the same tuple.
\<close>

theorem compareVersions_strict_order:
  "(valid_version a \<and> valid_version b \<and> parserVersion a \<noteq> parserVersion b
      \<longrightarrow> compareVersions a b = (\<not> compareVersions b a))
   \<and> (valid_version a \<and> valid_version b \<and> parserVersion a = parserVersion b
      \<longrightarrow> \<not> compareVersions a b \<and> \<not> compareVersions b a)
   \<and> (valid_version a \<and> valid_version b \<and> valid_version c
       \<and> compareVersions a b \<and> compareVersions b c \<longrightarrow> compareVersions a c)"
proof (intro conjI impI)
  assume h: "valid_version a \<and> valid_version b \<and> parserVersion a \<noteq> parserVersion b"
  from h valid_version_nums [of a] obtain a1 a2 a3 a4 where
    pa: "parserVersion a = [Num a1, Num a2, Num a3, Num a4]" by blast
  from h valid_version_nums [of b] obtain b1 b2 b3 b4 where
    pb: "parserVersion b = [Num b1, Num b2, Num b3, Num b4]" by blast
  from h pa pb have "(a1, a2, a3, a4) \<noteq> (b1, b2, b3, b4)" by auto
  then show "compareVersions a b = (\<not> compareVersions b a)"
    unfolding compareVersions_valid [OF pa pb] compareVersions_valid [OF pb pa] by auto
next
  assume h: "valid_version a \<and> valid_version b \<and> parserVersion a = parserVersion b"
  from h valid_version_nums [of a] obtain a1 a2 a3 a4 where
    pa: "parserVersion a = [Num a1, Num a2, Num a3, Num a4]" by blast
  from h valid_version_nums [of b] obtain b1 b2 b3 b4 where
    pb: "parserVersion b = [Num b1, Num b2, Num b3, Num b4]" by blast
  from h pa pb have "(a1, a2, a3, a4) = (b1, b2, b3, b4)" by auto
  then show "\<not> compareVersions a b"
    unfolding compareVersions_valid [OF pa pb] by auto
next
  assume h: "valid_version a \<and> valid_version b \<and> parserVersion a = parserVersion b"
  from h valid_version_nums [of a] obtain a1 a2 a3 a4 where
    pa: "parserVersion a = [Num a1, Num a2, Num a3, Num a4]" by blast
  from h valid_version_nums [of b] obtain b1 b2 b3 b4 where
    pb: "parserVersion b = [Num b1, Num b2, Num b3, Num b4]" by blast
  from h pa pb have "(a1, a2, a3, a4) = (b1, b2, b3, b4)" by auto
  then show "\<not> compareVersions b a"
    unfolding compareVersions_valid [OF pb pa] by auto
next
  assume h: "valid_version a \<and> valid_version b \<and> valid_version c
       \<and> compareVersions a b \<and> compareVersions b c"
  from h valid_version_nums [of a] obtain a1 a2 a3 a4 where
    pa: "parserVersion a = [Num a1, Num a2, Num a3, Num a4]" by blast
  from h valid_version_nums [of b] obtain b1 b2 b3 b4 where
    pb: "parserVersion b = [Num b1, Num b2, Num b3, Num b4]" by blast
  from h valid_version_nums [of c] obtain c1 c2 c3 c4 where
    pc: "parserVersion c = [Num c1, Num c2, Num c3, Num c4]" by blast
  from h have "lex_gt4 (a1, a2, a3, a4) (b1, b2, b3, b4)" "lex_gt4 (b1, b2, b3, b4) (c1, c2, c3, c4)"
    unfolding compareVersions_valid [OF pa pb] compareVersions_valid [OF pb pc] by simp_all
  then show "compareVersions a c"
    unfolding compareVersions_valid [OF pa pc] by auto
qed

text \<open>The theorem at \<^verbatim>\<open>"2.0.0"\<close>, \<^verbatim>\<open>"1.10.0"\<close> and \<^verbatim>\<open>"1.2.3-4"\<close>.\<close>

theorem compareVersions_strict_order_witness:
  "valid_version ''2.0.0'' \<and> valid_version ''1.10.0'' \<and> valid_version ''1.2.3-4''
   \<and> parserVersion ''2.0.0'' \<noteq> parserVersion ''1.10.0''
   \<and> compareVersions ''2.0.0'' ''1.10.0'' \<and> compareVersions ''1.10.0'' ''1.2.3-4''
   \<and> \<not> compareVersions ''1.10.0'' ''2.0.0''
   \<and> compareVersions ''2.0.0'' ''1.2.3-4''"
proof -
  have v: "valid_version ''2.0.0''" "valid_version ''1.10.0''" "valid_version ''1.2.3-4''"
    by code_simp+
  have n: "parserVersion ''2.0.0'' \<noteq> parserVersion ''1.10.0''" by code_simp
  have c: "compareVersions ''2.0.0'' ''1.10.0''" "compareVersions ''1.10.0'' ''1.2.3-4''"
    by code_simp+
  from compareVersions_strict_order [of "''2.0.0''" "''1.10.0''" "''1.2.3-4''"] v n c
  show ?thesis by blast
qed

text \<open>
  Claim C5 as stated fails: \<^verbatim>\<open>"1.2.3"\<close> and \<^verbatim>\<open>"1.2.3-0"\<close> are valid and
  different, and neither is newer than the other.
\<close>

theorem compareVersions_antisymmetry_counterexample:
  "valid_version ''1.2.3'' \<and> valid_version ''1.2.3-0'' \<and> ''1.2.3'' \<noteq> ''1.2.3-0''
   \<and> compareVersions ''1.2.3'' ''1.2.3-0'' \<noteq> (\<not> compareVersions ''1.2.3-0'' ''1.2.3'')"
  by code_simp




lemma takeWhile_no_digit: "r = [] \<or> \<not> isDigit (hd r) \<Longrightarrow> takeWhile isDigit r = []"
  by (cases r) simp_all









section \<open>Properties of download\<close>

lemma rm_existing_one:
  "rm_existing (p # ps) s = rm_existing ps (s\<lparr>files := (files s)(p := None)\<rparr>)"
proof (cases "files s p")
  case None
  then have "(files s)(p := None) = files s" by (simp add: fun_upd_idem)
  with None show ?thesis by (simp add: exists_def)
next
  case (Some d)
  then show ?thesis by (simp add: exists_def rm_def)
qed

lemma rm_existing_cleaned:
  "rm_existing [asarNextPath u, asarSwapPath u, asarVersionPath u] s = (Inr (), cleaned u s)"
  by (simp del: rm_existing.simps add: rm_existing_one rm_existing.simps(1) cleaned_def)

lemma pipe_stages:
  "pipe n (chunks, ended)
     ((if hashed then [HashTransform a] else []) @ (if gz then [Gunzip] else []) @ [WriteStream p]) s =
   ((if \<not> ended then Inl ResponseAborted
     else if gz \<and> \<not> snd (gunzip n (concat chunks)) then Inl ZlibError
     else Inr (if hashed then Some (toLowerCase (createHash n a (concat chunks))) else None)),
    s\<lparr>files := (files s)(p \<mapsto> (if gz then fst (gunzip n (concat chunks)) else concat chunks))\<rparr>)"
  by (simp add: pipe_def)

lemma download_open_fails:
  "http_get_stream n (download_url info) = Inl e \<Longrightarrow> download n u info s = (Inl e, cleaned u s)"
  by (simp del: rm_existing.simps add: download_def rm_existing_cleaned)

lemma download_streamed:
  assumes "http_get_stream n (download_url info) = Inr (chunks, ended)"
  shows "download n u info s =
     (let raw = concat chunks;
          gz = is_gzip_url (download_url info);
          out = (if gz then fst (gunzip n raw) else raw)
      in if \<not> ended then (Inl ResponseAborted, swap_written u out s)
         else if gz \<and> \<not> snd (gunzip n raw) then (Inl ZlibError, swap_written u out s)
         else if (case checksum info of
                    None \<Rightarrow> False
                  | Some c \<Rightarrow> c \<noteq> [] \<and>
                      toLowerCase (createHash n (digest_algorithm c) raw) \<noteq> toLowerCase c)
              then (Inl ChecksumError, swap_written u out s)
         else (Inr True, committed n u info out s))"
proof (cases "checksum info")
  case None
  show ?thesis
    by (cases "is_gzip_url (download_url info)")
       (simp_all del: rm_existing.simps add: download_def rm_existing_cleaned assms None
          is_gzip_url_def pipe_def createWriteStream_def rename_def writeFile_def
          swap_written_def committed_def Let_def)
next
  case (Some c)
  show ?thesis
  proof (cases "c = []")
    case True
    show ?thesis
      by (cases "is_gzip_url (download_url info)")
         (simp_all del: rm_existing.simps add: download_def rm_existing_cleaned assms Some True
            is_gzip_url_def pipe_def createWriteStream_def rename_def writeFile_def
            swap_written_def committed_def Let_def)
  next
    case False
    show ?thesis
      by (cases "is_gzip_url (download_url info)")
         (simp_all del: rm_existing.simps add: download_def rm_existing_cleaned assms Some False
            is_gzip_url_def pipe_def createWriteStream_def rename_def writeFile_def
            swap_written_def committed_def digest_algorithm_def Let_def)
  qed
qed

lemma cleaned_files:
  "files (cleaned u s) p =
     (if p = asarNextPath u \<or> p = asarSwapPath u \<or> p = asarVersionPath u then None else files s p)"
  by (simp add: cleaned_def)

lemma cleaned_idem: "cleaned u (cleaned u s) = cleaned u s"
  by (simp add: cleaned_def)

lemma swap_written_files:
  "files (swap_written u out s) p =
     (if p = asarSwapPath u then Some out else files (cleaned u s) p)"
  by (simp add: swap_written_def)

lemma committed_files:
  "files (committed n u info out s) p =
     (if p = asarVersionPath u then Some (JSON_stringify n info)
      else if p = asarNextPath u then Some out
      else if p = asarSwapPath u then None
      else files (cleaned u s) p)"
  by (simp add: committed_def)

lemma download_outcomes:
  "(\<exists>e. download n u info s = (Inl e, cleaned u s))
   \<or> (\<exists>e out. download n u info s = (Inl e, swap_written u out s))
   \<or> (\<exists>out. download n u info s = (Inr True, committed n u info out s))"
proof (cases "http_get_stream n (download_url info)")
  case (Inl e)
  then show ?thesis by (simp add: download_open_fails)
next
  case (Inr st)
  obtain chunks ended where "st = (chunks, ended)" by (cases st)
  with Inr have "http_get_stream n (download_url info) = Inr (chunks, ended)" by simp
  from download_streamed [OF this, of u s]
  have "(\<exists>e out. download n u info s = (Inl e, swap_written u out s))
        \<or> (\<exists>out. download n u info s = (Inr True, committed n u info out s))"
    by (cases ended) (auto simp: Let_def)
  then show ?thesis by blast
qed

lemma hasUpgraded_none:
  "files s (asarNextPath u) = None \<or> files s (asarVersionPath u) = None
     \<Longrightarrow> hasUpgraded n u s = Inr None"
  by (auto simp: hasUpgraded_def exists_def)

text \<open>
  Claim C1, as amended. If \<^verbatim>\<open>download\<close> fails after its clean-up step (the request
  fails, the stream breaks off, gunzip fails, or the checksum differs from the digest),
  then afterwards neither the next file nor the version file exists and
  \<^verbatim>\<open>hasUpgraded\<close> answers \<^verbatim>\<open>false\<close>: no pair has become visible, and a pair
  staged before the call has been discarded by the clean-up step (so the staging state
  is not unchanged). On the file system of the model the clean-up itself cannot fail,
  so this covers every failure. A stream that breaks off makes \<^verbatim>\<open>download\<close> fail,
  and so does a non-empty checksum that differs from the digest. Only a run that
  returns \<^verbatim>\<open>true\<close> leaves the pair: the next file and the version file holding the
  serialised descriptor.
\<close>

theorem download_failure_stages_nothing:
  assumes "staging_distinct u"
  shows "(\<forall>e. fst (download n u info s) = Inl e \<longrightarrow>
            files (snd (download n u info s)) (asarNextPath u) = None
          \<and> files (snd (download n u info s)) (asarVersionPath u) = None
          \<and> hasUpgraded n u (snd (download n u info s)) = Inr None)
       \<and> (\<forall>chunks. http_get_stream n (download_url info) = Inr (chunks, False) \<longrightarrow>
            fst (download n u info s) = Inl ResponseAborted)
       \<and> (\<forall>chunks c. http_get_stream n (download_url info) = Inr (chunks, True)
              \<and> checksum info = Some c \<and> c \<noteq> []
              \<and> toLowerCase (createHash n (if length c = 32 then ''md5'' else ''sha256'')
                                (concat chunks)) \<noteq> toLowerCase c \<longrightarrow>
            fst (download n u info s) = Inl ChecksumError
          \<or> fst (download n u info s) = Inl ZlibError)
       \<and> (\<forall>b. fst (download n u info s) = Inr b \<longrightarrow>
            b \<and> exists (snd (download n u info s)) (asarNextPath u)
          \<and> files (snd (download n u info s)) (asarVersionPath u) = Some (JSON_stringify n info))"
proof -
  from assms have d: "asarSwapPath u \<noteq> asarNextPath u" "asarSwapPath u \<noteq> asarVersionPath u"
    "asarNextPath u \<noteq> asarVersionPath u"
    by (simp_all add: staging_distinct_def)
  have fail: "files (snd (download n u info s)) (asarNextPath u) = None
          \<and> files (snd (download n u info s)) (asarVersionPath u) = None
          \<and> hasUpgraded n u (snd (download n u info s)) = Inr None"
    if "fst (download n u info s) = Inl e" for e
  proof -
    from download_outcomes [of n u info s] that d
    have "files (snd (download n u info s)) (asarNextPath u) = None
          \<and> files (snd (download n u info s)) (asarVersionPath u) = None"
      by (auto simp: cleaned_files swap_written_files)
    then show ?thesis by (simp add: hasUpgraded_none)
  qed
  have abort: "fst (download n u info s) = Inl ResponseAborted"
    if "http_get_stream n (download_url info) = Inr (chunks, False)" for chunks
    using download_streamed [OF that, of u s] by (simp add: Let_def)
  have mismatch: "fst (download n u info s) = Inl ChecksumError
          \<or> fst (download n u info s) = Inl ZlibError"
    if "http_get_stream n (download_url info) = Inr (chunks, True)
          \<and> checksum info = Some c \<and> c \<noteq> []
          \<and> toLowerCase (createHash n (if length c = 32 then ''md5'' else ''sha256'')
                            (concat chunks)) \<noteq> toLowerCase c" for chunks c
  proof -
    from that have o: "http_get_stream n (download_url info) = Inr (chunks, True)" by simp
    from download_streamed [OF o, of u s] that show ?thesis
      by (simp add: Let_def digest_algorithm_def)
  qed
  have ok: "b \<and> exists (snd (download n u info s)) (asarNextPath u)
          \<and> files (snd (download n u info s)) (asarVersionPath u) = Some (JSON_stringify n info)"
    if "fst (download n u info s) = Inr b" for b
    using download_outcomes [of n u info s] that d
    by (auto simp: committed_files exists_def)
  from fail abort mismatch ok show ?thesis by blast
qed

text \<open>The theorem at the concrete installation: a download answered with status 404
  over a staged update, a stream that breaks off, a checksum that does not match, and a
  download that succeeds.\<close>

theorem download_failure_stages_nothing_witness:
  "staging_distinct example_updater
   \<and> fst (download node_not_found example_updater info_gz staged_state) = Inl (StatusError 404)
   \<and> hasUpgraded node_not_found example_updater
         (snd (download node_not_found example_updater info_gz staged_state)) = Inr None
   \<and> http_get_stream node_aborting (download_url info_gz) = Inr ([''zip''], False)
   \<and> fst (download node_aborting example_updater info_gz staged_state) = Inl ResponseAborted
   \<and> fst (download node_serving example_updater info_tampered staged_state) = Inl ChecksumError
   \<and> hasUpgraded node_serving example_updater
         (snd (download node_serving example_updater info_tampered staged_state)) = Inr None
   \<and> fst (download node_serving example_updater info_gz unstaged_state) = Inr True
   \<and> files (snd (download node_serving example_updater info_gz unstaged_state))
         (asarVersionPath example_updater) = Some ''gz''"
proof -
  have d: "staging_distinct example_updater"
    by (simp add: staging_distinct_def example_updater_def)
  have o1: "http_get_stream node_not_found (download_url info_gz) = Inl (StatusError 404)"
    by (simp add: http_get_stream_def request_def startsWith_def example_defs)
  have f: "fst (download node_not_found example_updater info_gz staged_state) = Inl (StatusError 404)"
    by (simp add: download_open_fails [OF o1])
  have a: "http_get_stream node_aborting (download_url info_gz) = Inr ([''zip''], False)"
    by (simp add: http_get_stream_def request_def startsWith_def example_defs)
  have o: "http_get_stream node_serving (download_url info_gz) = Inr ([''zip'', ''ped''], True)"
    by (simp add: http_get_stream_def request_def startsWith_def example_defs)
  have o': "http_get_stream node_serving (download_url info_tampered) = Inr ([''zip'', ''ped''], True)"
    by (simp add: http_get_stream_def request_def startsWith_def example_defs)
  have lc: "toLowerCase ''sha256:zipped'' = ''sha256:zipped''"
           "toLowerCase ''SHA256:ZIPPED'' = ''sha256:zipped''"
           "toLowerCase ''sha256:other'' = ''sha256:other''"
    by code_simp+
  have s: "fst (download node_serving example_updater info_gz unstaged_state) = Inr True"
    by (simp only: download_streamed [OF o])
       (simp add: Let_def is_gzip_url_def endsWith_def digest_algorithm_def example_defs lc)
  have m: "fst (download node_serving example_updater info_tampered staged_state) = Inl ChecksumError"
    by (simp only: download_streamed [OF o'])
       (simp add: Let_def is_gzip_url_def endsWith_def digest_algorithm_def example_defs lc)
  have j: "JSON_stringify node_serving info_gz = ''gz''"
    by (simp add: example_defs)
  have h: "hasUpgraded node_not_found example_updater
         (snd (download node_not_found example_updater info_gz staged_state)) = Inr None"
    using download_failure_stages_nothing [OF d, of node_not_found info_gz staged_state] f by blast
  have b: "fst (download node_aborting example_updater info_gz staged_state) = Inl ResponseAborted"
    using download_failure_stages_nothing [OF d, of node_aborting info_gz staged_state] a by blast
  have h': "hasUpgraded node_serving example_updater
         (snd (download node_serving example_updater info_tampered staged_state)) = Inr None"
    using download_failure_stages_nothing [OF d, of node_serving info_tampered staged_state] m by blast
  have v: "files (snd (download node_serving example_updater info_gz unstaged_state))
         (asarVersionPath example_updater) = Some ''gz''"
    using download_failure_stages_nothing [OF d, of node_serving info_gz unstaged_state] s j
    by auto
  from d f h a b m h' s v show ?thesis by blast
qed

text \<open>
  Claim C1 as stated fails in its second half: with an update staged, a download that
  fails on a 404 answer leaves \<^verbatim>\<open>hasUpgraded\<close> changed, from the staged descriptor to
  \<^verbatim>\<open>false\<close>.
\<close>

theorem download_failure_changes_hasUpgraded_counterexample:
  "hasUpgraded node_not_found example_updater staged_state = Inr (Some info_gz)
   \<and> fst (download node_not_found example_updater info_gz staged_state) = Inl (StatusError 404)
   \<and> hasUpgraded node_not_found example_updater
         (snd (download node_not_found example_updater info_gz staged_state)) = Inr None"
proof -
  have o: "http_get_stream node_not_found (download_url info_gz) = Inl (StatusError 404)"
    by (simp add: http_get_stream_def request_def startsWith_def example_defs)
  have h: "hasUpgraded node_not_found example_updater staged_state = Inr (Some info_gz)"
    by (simp add: hasUpgraded_def exists_def read_info_def readFile_def example_defs)
  have c: "files (cleaned example_updater staged_state) (asarNextPath example_updater) = None"
    by (simp add: cleaned_files)
  show ?thesis
    by (simp add: download_open_fails [OF o] h hasUpgraded_none c)
qed

text \<open>
  Claim C2. \<^verbatim>\<open>download\<close> begins by removing the next, swap and version files that
  exist: the loop always completes and leaves none of the three, touching no other
  file. It comes before the network is used: a download whose request fails ends in
  exactly the cleaned state. And nothing of a previous run survives into the new one:
  \<^verbatim>\<open>download\<close> behaves on any state as it does on the cleaned state, so at most the
  update it stages itself is there afterwards.
\<close>

theorem download_cleans_first:
  "rm_existing [asarNextPath u, asarSwapPath u, asarVersionPath u] s = (Inr (), cleaned u s)
   \<and> \<not> exists (cleaned u s) (asarSwapPath u)
   \<and> \<not> exists (cleaned u s) (asarNextPath u)
   \<and> \<not> exists (cleaned u s) (asarVersionPath u)
   \<and> (\<forall>p. p \<noteq> asarSwapPath u \<and> p \<noteq> asarNextPath u \<and> p \<noteq> asarVersionPath u
          \<longrightarrow> files (cleaned u s) p = files s p)
   \<and> spawned (cleaned u s) = spawned s
   \<and> (\<forall>e. http_get_stream n (download_url info) = Inl e
          \<longrightarrow> download n u info s = (Inl e, cleaned u s))
   \<and> download n u info s = download n u info (cleaned u s)"
proof -
  have same: "download n u info s = download n u info (cleaned u s)"
    by (simp del: rm_existing.simps add: download_def rm_existing_cleaned cleaned_idem)
  have frame: "spawned (cleaned u s) = spawned s" by (simp add: cleaned_def)
  show ?thesis
    unfolding rm_existing_cleaned
    using same frame by (simp add: download_open_fails exists_def cleaned_files cleaned_idem)
qed

text \<open>The theorem at the concrete installation, over a staged update and a request
  answered with status 404.\<close>

theorem download_cleans_first_witness:
  "exists staged_state (asarNextPath example_updater)
   \<and> exists staged_state (asarVersionPath example_updater)
   \<and> http_get_stream node_not_found (download_url info_gz) = Inl (StatusError 404)
   \<and> download node_not_found example_updater info_gz staged_state
       = (Inl (StatusError 404), cleaned example_updater staged_state)
   \<and> \<not> exists (cleaned example_updater staged_state) (asarNextPath example_updater)
   \<and> \<not> exists (cleaned example_updater staged_state) (asarVersionPath example_updater)
   \<and> files (cleaned example_updater staged_state) (asarTargetPath example_updater) = Some ''live''"
proof -
  have o: "http_get_stream node_not_found (download_url info_gz) = Inl (StatusError 404)"
    by (simp add: http_get_stream_def request_def startsWith_def example_defs)
  have e: "exists staged_state (asarNextPath example_updater)"
          "exists staged_state (asarVersionPath example_updater)"
    by (simp_all add: exists_def example_defs)
  have p: "asarTargetPath example_updater \<noteq> asarSwapPath example_updater
           \<and> asarTargetPath example_updater \<noteq> asarNextPath example_updater
           \<and> asarTargetPath example_updater \<noteq> asarVersionPath example_updater"
    by (simp add: example_defs)
  have t: "files staged_state (asarTargetPath example_updater) = Some ''live''"
    by (simp add: example_defs)
  from download_cleans_first [of example_updater staged_state node_not_found info_gz] o e p t
  show ?thesis by metis
qed

text \<open>
  Claim C10. With a non-empty checksum \<open>c\<close> and a stream that arrives whole (and, for
  a URL ending in \<^verbatim>\<open>.gz\<close> or \<^verbatim>\<open>.gzip\<close>, decompresses), \<^verbatim>\<open>download\<close> succeeds
  exactly when the digest of the bytes as they were downloaded equals \<open>c\<close> up to
  letter case, and fails with the checksum error otherwise; the algorithm is MD5 when
  \<open>c\<close> has length 32 and SHA-256 for every other length. What is written and staged
  is the decompressed content: the digest is taken before the gunzip stage.
\<close>

theorem download_checksum_over_transferred_bytes:
  assumes "http_get_stream n (download_url info) = Inr (chunks, True)"
    and "checksum info = Some c" and "c \<noteq> []"
    and "is_gzip_url (download_url info) \<longrightarrow> snd (gunzip n (concat chunks))"
    and "staging_distinct u"
  shows "(fst (download n u info s) = Inr True \<longleftrightarrow>
            toLowerCase (createHash n (if length c = 32 then ''md5'' else ''sha256'') (concat chunks))
              = toLowerCase c)
       \<and> (fst (download n u info s) \<noteq> Inr True \<longrightarrow> fst (download n u info s) = Inl ChecksumError)
       \<and> (fst (download n u info s) = Inr True \<longrightarrow>
            files (snd (download n u info s)) (asarNextPath u)
              = Some (if is_gzip_url (download_url info) then fst (gunzip n (concat chunks))
                      else concat chunks))"
proof -
  from assms(5) have d: "asarNextPath u \<noteq> asarVersionPath u"
    by (simp add: staging_distinct_def)
  show ?thesis
    using download_streamed [OF assms(1), of u s] assms(2-4) d
    by (auto simp: Let_def digest_algorithm_def committed_files)
qed

text \<open>The theorem at the concrete installation: the archive \<^verbatim>\<open>zipped\<close> arrives in two
  chunks, its digest is \<^verbatim>\<open>sha256:zipped\<close>, and the bundle it contains is staged.\<close>

theorem download_checksum_over_transferred_bytes_witness:
  "http_get_stream node_serving (download_url info_gz) = Inr ([''zip'', ''ped''], True)
   \<and> checksum info_gz = Some ''SHA256:ZIPPED''
   \<and> is_gzip_url (download_url info_gz)
   \<and> gunzip node_serving (concat [''zip'', ''ped'']) = (''bundle'', True)
   \<and> staging_distinct example_updater
   \<and> createHash node_serving ''sha256'' (concat [''zip'', ''ped'']) = ''sha256:zipped''
   \<and> fst (download node_serving example_updater info_gz unstaged_state) = Inr True
   \<and> files (snd (download node_serving example_updater info_gz unstaged_state))
         (asarNextPath example_updater) = Some ''bundle''"
proof -
  have o: "http_get_stream node_serving (download_url info_gz) = Inr ([''zip'', ''ped''], True)"
    by (simp add: http_get_stream_def request_def startsWith_def example_defs)
  have c: "checksum info_gz = Some ''SHA256:ZIPPED''" "''SHA256:ZIPPED'' \<noteq> []"
    by (simp_all add: example_defs)
  have z: "is_gzip_url (download_url info_gz)"
    by (simp add: is_gzip_url_def endsWith_def example_defs)
  have g: "gunzip node_serving (concat [''zip'', ''ped'']) = (''bundle'', True)"
    by (simp add: example_defs)
  have d: "staging_distinct example_updater"
    by (simp add: staging_distinct_def example_updater_def)
  have h: "createHash node_serving ''sha256'' (concat [''zip'', ''ped'']) = ''sha256:zipped''"
    by (simp add: example_defs)
  have lc: "toLowerCase ''sha256:zipped'' = toLowerCase ''SHA256:ZIPPED''"
    by code_simp
  have l: "length ''SHA256:ZIPPED'' \<noteq> 32" by simp
  have g2: "is_gzip_url (download_url info_gz) \<longrightarrow> snd (gunzip node_serving (concat [''zip'', ''ped'']))"
    using g by simp
  note t = download_checksum_over_transferred_bytes [OF o c g2 d, of unstaged_state]
  have ok: "fst (download node_serving example_updater info_gz unstaged_state) = Inr True"
    using t l h lc by simp
  have nx: "files (snd (download node_serving example_updater info_gz unstaged_state))
         (asarNextPath example_updater) = Some ''bundle''"
    using t ok z g by simp
  from o c z g d h ok nx show ?thesis by blast
qed

section \<open>Properties of check\<close>

lemma lastIndexOf_last:
  assumes "c \<notin> set file"
  shows "lastIndexOf (dir @ c # file) c = int (length dir)"
proof -
  have "dropWhile (\<lambda>x. x \<noteq> c) (rev file @ c # rev dir) = c # rev dir"
    using assms by (auto simp: dropWhile_append3 dropWhile_eq_Nil_conv)
  then show ?thesis by (simp add: lastIndexOf_def)
qed

lemma directory_of_url:
  assumes "c \<notin> set file"
  shows "slice0 (dir @ c # file) (lastIndexOf (dir @ c # file) c) = dir"
  by (simp add: lastIndexOf_last [OF assms] slice0_def)

lemma check_returns:
  assumes "http_get_json n (checkVersionUrl u) = Inr data"
    and "exists s (asarVersionPath u) \<longrightarrow> read_info n (asarVersionPath u) s = Inr v"
  shows "check n u curentVersion s =
     Inr (if exists s (asarVersionPath u) \<and> truthy (checksum v) \<and> checksum v = checksum data
          then False else compareVersions (version data) curentVersion,
          data\<lparr>download_url :=
            (if startsWith (download_url data) ''http://'' \<or> startsWith (download_url data) ''https://''
             then download_url data
             else if startsWith (download_url data) ''/'' then downloadHost u @ download_url data
             else slice0 (checkVersionUrl u) (lastIndexOf (checkVersionUrl u) CHR ''/'')
                    @ ''/'' @ download_url data)\<rparr>)"
  using assms by (simp add: check_def Let_def)

text \<open>
  Claim C7. When the metadata is fetched (and the version file, if there is one, can be
  read), \<^verbatim>\<open>check\<close> returns the descriptor with its \<^verbatim>\<open>download_url\<close> resolved: a URL
  beginning with \<^verbatim>\<open>http://\<close> or \<^verbatim>\<open>https://\<close> as it is; otherwise one with a leading
  \<^verbatim>\<open>/\<close> appended to the origin of the check URL, which is what the constructor
  stores as the download host; every other one appended, after a \<^verbatim>\<open>/\<close>, to the check
  URL cut before its last \<^verbatim>\<open>/\<close>.
\<close>

theorem check_resolves_download_url:
  assumes "http_get_json n (checkVersionUrl u) = Inr data"
    and "exists s (asarVersionPath u) \<longrightarrow> (\<exists>v. read_info n (asarVersionPath u) s = Inr v)"
  shows "\<exists>isUpdater url.
           check n u curentVersion s = Inr (isUpdater, data\<lparr>download_url := url\<rparr>)
         \<and> (startsWith (download_url data) ''http://'' \<or> startsWith (download_url data) ''https://''
              \<longrightarrow> url = download_url data)
         \<and> (\<not> startsWith (download_url data) ''http://''
              \<and> \<not> startsWith (download_url data) ''https://''
              \<and> startsWith (download_url data) ''/''
              \<longrightarrow> url = downloadHost u @ download_url data)
         \<and> (\<not> startsWith (download_url data) ''http://''
              \<and> \<not> startsWith (download_url data) ''https://''
              \<and> \<not> startsWith (download_url data) ''/''
              \<longrightarrow> (\<forall>dir base. checkVersionUrl u = dir @ ''/'' @ base \<and> CHR ''/'' \<notin> set base
                     \<longrightarrow> url = dir @ ''/'' @ download_url data))
         \<and> (\<forall>options u'. new_AsarUpdater n options = Inr u'
              \<longrightarrow> checkVersionUrl u' = version_url options
                \<and> url_origin n (version_url options) = Some (downloadHost u'))"
proof -
  from assms(2) obtain v where
    v: "exists s (asarVersionPath u) \<longrightarrow> read_info n (asarVersionPath u) s = Inr v"
    by blast
  have ctor: "checkVersionUrl u' = version_url options
                \<and> url_origin n (version_url options) = Some (downloadHost u')"
    if "new_AsarUpdater n options = Inr u'" for options u'
    using that by (auto simp: new_AsarUpdater_def Let_def split: option.splits)
  have dir: "slice0 (checkVersionUrl u) (lastIndexOf (checkVersionUrl u) CHR ''/'') = dir"
    if "checkVersionUrl u = dir @ ''/'' @ base \<and> CHR ''/'' \<notin> set base" for dir base
    using that directory_of_url [of "CHR ''/''" base dir] by simp
  show ?thesis
    unfolding check_returns [OF assms(1) v]
    using ctor dir by (intro exI conjI) (rule refl, simp_all)
qed

text \<open>The theorem at the concrete installation, for the two examples of the claim:
  \<^verbatim>\<open>/pkg/app.asar\<close> and \<^verbatim>\<open>app.asar.gz\<close> against \<^verbatim>\<open>https://h/api/check\<close>.\<close>

theorem check_resolves_download_url_witness:
  "http_get_json node_root (checkVersionUrl example_updater) = Inr info_root
   \<and> http_get_json node_bare (checkVersionUrl example_updater) = Inr info_bare
   \<and> \<not> exists unstaged_state (asarVersionPath example_updater)
   \<and> new_AsarUpdater node_root
        \<lparr> version_url = ''https://h/api/check'', resource_path = ''/opt/app/resources/app.asar'',
          exec_path = None \<rparr> = Inr example_updater
   \<and> check node_root example_updater ''1.0.0'' unstaged_state
        = Inr (True, info_root\<lparr>download_url := ''https://h/pkg/app.asar''\<rparr>)
   \<and> check node_bare example_updater ''1.0.0'' unstaged_state
        = Inr (True, info_bare\<lparr>download_url := ''https://h/api/app.asar.gz''\<rparr>)"
proof -
  have r: "http_get_json node_root (checkVersionUrl example_updater) = Inr info_root"
    by (simp add: http_get_json_def request_def startsWith_def example_defs)
  have b: "http_get_json node_bare (checkVersionUrl example_updater) = Inr info_bare"
    by (simp add: http_get_json_def request_def startsWith_def example_defs)
  have e: "\<not> exists unstaged_state (asarVersionPath example_updater)"
    by (simp add: exists_def example_defs)
  have e': "exists unstaged_state (asarVersionPath example_updater)
             \<longrightarrow> (\<exists>v. read_info n (asarVersionPath example_updater) unstaged_state = Inr v)" for n
    using e by simp
  have c: "new_AsarUpdater node_root
        \<lparr> version_url = ''https://h/api/check'', resource_path = ''/opt/app/resources/app.asar'',
          exec_path = None \<rparr> = Inr example_updater"
    by (simp add: new_AsarUpdater_def Let_def endsWith_def slice0_def asarTargetFileName_def
          asarNextFileName_def asarSwapFileName_def asarVersionFileName_def example_defs)
  have cv: "compareVersions ''2.0.0'' ''1.0.0''" by code_simp
  have u: "checkVersionUrl example_updater = ''https://h/api'' @ ''/'' @ ''check''
           \<and> CHR ''/'' \<notin> set ''check''"
          "downloadHost example_updater = ''https://h''"
    by (simp_all add: example_defs)
  have dr: "download_url info_root = ''/pkg/app.asar''"
       "\<not> startsWith (download_url info_root) ''http://''"
       "\<not> startsWith (download_url info_root) ''https://''"
       "startsWith (download_url info_root) ''/''"
    by (simp_all add: startsWith_def example_defs)
  have db: "download_url info_bare = ''app.asar.gz''"
       "\<not> startsWith (download_url info_bare) ''http://''"
       "\<not> startsWith (download_url info_bare) ''https://''"
       "\<not> startsWith (download_url info_bare) ''/''"
    by (simp_all add: startsWith_def example_defs)
  have av: "version info_root = ''2.0.0''" "version info_bare = ''2.0.0''"
    by (simp_all add: example_defs)
  from check_resolves_download_url [OF r e', of "''1.0.0''"] obtain i1 url1 where
    c1: "check node_root example_updater ''1.0.0'' unstaged_state
           = Inr (i1, info_root\<lparr>download_url := url1\<rparr>)"
    and u1: "url1 = downloadHost example_updater @ download_url info_root"
    using dr by blast
  from check_resolves_download_url [OF b e', of "''1.0.0''"] obtain i2 url2 where
    c2: "check node_bare example_updater ''1.0.0'' unstaged_state
           = Inr (i2, info_bare\<lparr>download_url := url2\<rparr>)"
    and u2: "url2 = ''https://h/api'' @ ''/'' @ download_url info_bare"
    using db u(1) by blast
  have i1: "i1" using c1 check_returns [OF r, of unstaged_state info_root "''1.0.0''"] e cv av by simp
  have i2: "i2" using c2 check_returns [OF b, of unstaged_state info_bare "''1.0.0''"] e cv av by simp
  from r b e c c1 c2 u1 u2 i1 i2 u(2) dr(1) db(1) show ?thesis by simp
qed

text \<open>
  Claim C8. If the version file exists, parses, and records a checksum that is present
  (for the code: not empty) and equal to the checksum of the descriptor just fetched,
  \<^verbatim>\<open>check\<close> reports \<^verbatim>\<open>false\<close>, whatever the two version strings are.
\<close>

theorem check_anti_loop:
  assumes "http_get_json n (checkVersionUrl u) = Inr data"
    and "files s (asarVersionPath u) = Some text"
    and "JSON_parse n text = Some nextUpdaterInfo"
    and "truthy (checksum nextUpdaterInfo)"
    and "checksum nextUpdaterInfo = checksum data"
  shows "\<exists>info. check n u curentVersion s = Inr (False, info)"
proof -
  have e: "exists s (asarVersionPath u)" using assms(2) by (simp add: exists_def)
  have r: "read_info n (asarVersionPath u) s = Inr nextUpdaterInfo"
    using assms(2,3) by (simp add: read_info_def readFile_def)
  show ?thesis
    using check_returns [OF assms(1), of s nextUpdaterInfo curentVersion] e r assms(4,5) by simp
qed

text \<open>The theorem at the concrete installation: the server offers 2.0.0 to an
  application at 1.0.0, with the checksum of the update already staged.\<close>

theorem check_anti_loop_witness:
  "http_get_json node_serving (checkVersionUrl example_updater) = Inr info_gz
   \<and> files staged_state (asarVersionPath example_updater) = Some ''gz''
   \<and> JSON_parse node_serving ''gz'' = Some info_gz
   \<and> truthy (checksum info_gz)
   \<and> compareVersions (version info_gz) ''1.0.0''
   \<and> (\<exists>info. check node_serving example_updater ''1.0.0'' staged_state = Inr (False, info))"
proof -
  have r: "http_get_json node_serving (checkVersionUrl example_updater) = Inr info_gz"
    by (simp add: http_get_json_def request_def startsWith_def example_defs)
  have f: "files staged_state (asarVersionPath example_updater) = Some ''gz''"
    by (simp add: example_defs)
  have p: "JSON_parse node_serving ''gz'' = Some info_gz"
    by (simp add: example_defs)
  have t: "truthy (checksum info_gz)"
    by (simp add: truthy_def example_defs)
  have v: "version info_gz = ''2.0.0''" by (simp add: example_defs)
  have cv: "compareVersions ''2.0.0'' ''1.0.0''" by code_simp
  from check_anti_loop [OF r f p t refl, of "''1.0.0''"] r f p t cv v
  show ?thesis by simp
qed

section \<open>Properties of upgrade\<close>

lemma upgrade_direct:
  assumes "platform n \<noteq> ''win32''"
  shows "upgrade n u relaunch s =
           rename (asarNextPath u) (asarTargetPath u) (s\<lparr>files := (files s)(asarTargetPath u := None)\<rparr>)"
proof (cases "files s (asarTargetPath u)")
  case None
  then have "(files s)(asarTargetPath u := None) = files s" by (simp add: fun_upd_idem)
  with None assms show ?thesis by (simp add: upgrade_def rm_def)
next
  case (Some d)
  with assms show ?thesis by (simp add: upgrade_def rm_def)
qed

lemma upgrade_without_next:
  assumes "platform n \<noteq> ''win32''" and "files s (asarNextPath u) = None"
    and "asarNextPath u \<noteq> asarTargetPath u"
  shows "upgrade n u relaunch s = (Inl ENOENT, s\<lparr>files := (files s)(asarTargetPath u := None)\<rparr>)"
  unfolding upgrade_direct [OF assms(1)] using assms(2,3) by (simp add: rename_def)

text \<open>
  Claim C3 fails on the code. With no next file and the live bundle in place, on a
  platform other than win32, \<^verbatim>\<open>upgrade\<close> removes the live bundle and then fails with
  ENOENT on the rename: it is neither free of error nor a no-op.
\<close>

theorem upgrade_without_staged_update:
  "\<not> exists unstaged_state (asarNextPath example_updater)
   \<and> hasUpgraded node_root example_updater unstaged_state = Inr None
   \<and> files unstaged_state (asarTargetPath example_updater) = Some ''live''
   \<and> platform node_root = ''linux''
   \<and> fst (upgrade node_root example_updater False unstaged_state) = Inl ENOENT
   \<and> files (snd (upgrade node_root example_updater False unstaged_state))
         (asarTargetPath example_updater) = None"
proof -
  have p: "platform node_root \<noteq> ''win32''" by (simp add: example_defs)
  show ?thesis
    unfolding upgrade_direct [OF p]
    by (simp add: rename_def exists_def hasUpgraded_def example_defs)
qed

text \<open>
  Claim C9, as amended. On a platform other than win32, from a state with a next file,
  \<^verbatim>\<open>upgrade\<close> completes, the target then holds what the next file held, and the next
  file is gone; the version file is not touched and stays on disk, as does every other
  file.
\<close>

theorem upgrade_direct_rename:
  assumes "platform n \<noteq> ''win32''"
    and "files s (asarNextPath u) = Some bundle"
    and "staging_distinct u"
  shows "fst (upgrade n u relaunch s) = Inr ()
       \<and> files (snd (upgrade n u relaunch s)) (asarTargetPath u) = Some bundle
       \<and> files (snd (upgrade n u relaunch s)) (asarNextPath u) = None
       \<and> files (snd (upgrade n u relaunch s)) (asarVersionPath u) = files s (asarVersionPath u)
       \<and> (\<forall>p. p \<noteq> asarTargetPath u \<and> p \<noteq> asarNextPath u
              \<longrightarrow> files (snd (upgrade n u relaunch s)) p = files s p)"
proof -
  from assms(3) have d: "asarNextPath u \<noteq> asarTargetPath u" "asarVersionPath u \<noteq> asarTargetPath u"
    "asarVersionPath u \<noteq> asarNextPath u"
    by (auto simp: staging_distinct_def)
  show ?thesis
    unfolding upgrade_direct [OF assms(1)]
    using assms(2) d by (simp add: rename_def)
qed

text \<open>The theorem at the concrete installation, from the staged state.\<close>

theorem upgrade_direct_rename_witness:
  "platform node_root \<noteq> ''win32''
   \<and> files staged_state (asarNextPath example_updater) = Some ''bundle''
   \<and> staging_distinct example_updater
   \<and> fst (upgrade node_root example_updater False staged_state) = Inr ()
   \<and> files (snd (upgrade node_root example_updater False staged_state))
         (asarTargetPath example_updater) = Some ''bundle''
   \<and> files (snd (upgrade node_root example_updater False staged_state))
         (asarNextPath example_updater) = None"
proof -
  have p: "platform node_root \<noteq> ''win32''" by (simp add: example_defs)
  have f: "files staged_state (asarNextPath example_updater) = Some ''bundle''"
    by (simp add: example_defs)
  have d: "staging_distinct example_updater"
    by (simp add: staging_distinct_def example_updater_def)
  from upgrade_direct_rename [OF p f d, of False] p f d show ?thesis by blast
qed

text \<open>
  Claim C9 as stated fails in its last part: after \<^verbatim>\<open>upgrade\<close> from the staged
  state the version file is still on disk, with the staged descriptor in it.
\<close>

theorem upgrade_keeps_version_file_counterexample:
  "hasUpgraded node_root example_updater staged_state = Inr (Some info_gz)
   \<and> platform node_root = ''linux''
   \<and> fst (upgrade node_root example_updater False staged_state) = Inr ()
   \<and> exists (snd (upgrade node_root example_updater False staged_state))
         (asarVersionPath example_updater)
   \<and> files (snd (upgrade node_root example_updater False staged_state))
         (asarVersionPath example_updater) = Some ''gz''"
proof -
  have p: "platform node_root \<noteq> ''win32''" by (simp add: example_defs)
  have h: "hasUpgraded node_root example_updater staged_state = Inr (Some info_gz)"
    by (simp add: hasUpgraded_def exists_def read_info_def readFile_def example_defs)
  show ?thesis
    unfolding upgrade_direct [OF p]
    by (simp add: h) (simp add: rename_def exists_def example_defs)
qed

end
